theory Spec2Isabelle
  imports Complex_Main "HOL-Library.Multiset"
begin

section \<open>Data model of the traversal engine (TraverseTracks.cpp)\<close>

text \<open>
  Pointers are modelled by what they identify. A \<open>Track*\<close> is a track reference; the
  Track object behind it is read only through \<open>getNumSegments\<close>, \<open>getSegment\<close> and
  \<open>getSegments\<close>, so the heap of Track objects is a map from track references to the
  segment vector of the track. A \<open>Material*\<close> is carried through unread.
\<close>

type_synonym track_ref = nat
type_synonym material_ref = nat

text \<open>The five fields of a \<open>segment\<close> that \<open>traceSegmentsExplicit\<close> reads.\<close>

record segment =
  seg_length :: real
  seg_material :: material_ref
  seg_region_id :: int
  seg_cmfd_surface_fwd :: int
  seg_cmfd_surface_bwd :: int

text \<open>
  The enumeration of segment formation modes is declared outside this file, which names
  the enumerator \<open>EXPLICIT_2D\<close> only. Every other value that a variable of the
  enumeration type may hold is \<open>OTHER_FORMATION n\<close>.
\<close>

datatype segmentationType = EXPLICIT_2D | OTHER_FORMATION nat

text \<open>
  The TrackGenerator, as far as the engine queries it. The arrays returned by
  \<open>getTracks\<close> (a \<open>Track**\<close> indexed by angle and position) and by
  \<open>getTracksByParallelGroup\<close> (a \<open>Track**\<close> indexed by global track id) carry no
  length of their own in C++: they are functions from indices to track references, and
  the counts reported by the generator are the only bounds the engine uses.
\<close>

record TrackGenerator =
  getSegmentFormation :: segmentationType
  getTracks :: "int \<Rightarrow> int \<Rightarrow> track_ref"
  getNumAzim :: int
  getNumX :: "int \<Rightarrow> int"
  getNumY :: "int \<Rightarrow> int"
  getTracksByParallelGroup :: "int \<Rightarrow> track_ref"
  getNumParallelTrackGroups :: int
  getNumTracksByParallelGroup :: "int \<Rightarrow> int"

text \<open>
  The MOCKernel class is declared outside this file; the engine calls its two virtual
  methods. A kernel is therefore a parameter: a pair of functions over a kernel state
  \<open>'k\<close> of the kernel's own choosing. \<open>newTrack\<close> is handed the (non-const) Track
  pointer, so it may replace the segment vector of that track besides updating the kernel's
  state; \<open>execute\<close> is handed five values and no pointer to a track, so it updates the
  kernel's state only. The kernel pointer itself is a \<open>'k MOCKernel option\<close>, \<open>None\<close>
  being \<open>NULL\<close>.
\<close>

record 'k MOCKernel =
  newTrack :: "track_ref \<Rightarrow> segment list \<Rightarrow> 'k \<Rightarrow> segment list \<times> 'k"
  execute :: "real \<Rightarrow> material_ref \<Rightarrow> int \<Rightarrow> int \<Rightarrow> int \<Rightarrow> 'k \<Rightarrow> 'k"

text \<open>
  Calls on the kernel and on the hook are observed through a trace. An \<open>Execute\<close> event
  records the five arguments of the call, and the track that \<open>traceSegmentsExplicit\<close>
  was walking when it made the call.
\<close>

datatype event =
  NewTrack track_ref
  | Execute track_ref real material_ref int int int
  | OnTrack track_ref "segment list"

record 'k world =
  segments_of :: "track_ref \<Rightarrow> segment list"
  kernel_state :: 'k
  trace :: "event list"

datatype error = NullPointerDereference

record TraverseTracks =
  track_generator :: TrackGenerator
  segment_formation :: segmentationType

section \<open>The operations\<close>

text \<open>The constructor saves the generator and caches its segment formation mode.\<close>

definition TraverseTracks_new :: "TrackGenerator \<Rightarrow> TraverseTracks" where
  "TraverseTracks_new tg =
     \<lparr>track_generator = tg, segment_formation = getSegmentFormation tg\<rparr>"

text \<open>
  \<open>int / int\<close> of C++ truncates towards zero. The \<open>int\<close> of C++ is modelled by the
  unbounded integers: overflow of a signed sum is undefined behaviour in C++, and the
  model describes the executions that stay within the range of \<open>int\<close>.
\<close>

definition cpp_div :: "int \<Rightarrow> int \<Rightarrow> int" where
  "cpp_div a b = sgn a * sgn b * (\<bar>a\<bar> div \<bar>b\<bar>)"

text \<open>\<open>kernel->newTrack(track)\<close>: dereferencing a null kernel is an error.\<close>

definition kernel_newTrack ::
  "'k MOCKernel option \<Rightarrow> track_ref \<Rightarrow> 'k world \<Rightarrow> error + 'k world" where
  "kernel_newTrack kern track w =
     (case kern of
        None \<Rightarrow> Inl NullPointerDereference
      | Some k \<Rightarrow>
          Inr (w\<lparr>segments_of :=
                   (segments_of w)
                     (track := fst (newTrack k track (segments_of w track) (kernel_state w))),
                 kernel_state := snd (newTrack k track (segments_of w track) (kernel_state w)),
                 trace := trace w @ [NewTrack track]\<rparr>))"

text \<open>\<open>kernel->execute(length, material, region_id, cmfd_surface_fwd, cmfd_surface_bwd)\<close>.\<close>

definition kernel_execute ::
  "'k MOCKernel option \<Rightarrow> track_ref \<Rightarrow> real \<Rightarrow> material_ref \<Rightarrow> int \<Rightarrow> int \<Rightarrow> int \<Rightarrow>
   'k world \<Rightarrow> error + 'k world" where
  "kernel_execute kern track l m r f b w =
     (case kern of
        None \<Rightarrow> Inl NullPointerDereference
      | Some k \<Rightarrow>
          Inr (w\<lparr>kernel_state := execute k l m r f b (kernel_state w),
                 trace := trace w @ [Execute track l m r f b]\<rparr>))"

text \<open>
  \<open>TraverseTracks::onTrack\<close>, the dummy default implementation: it does nothing. The
  call is recorded in the trace.
\<close>

definition onTrack :: "track_ref \<Rightarrow> segment list \<Rightarrow> 'k world \<Rightarrow> 'k world" where
  "onTrack track segments w = w\<lparr>trace := trace w @ [OnTrack track segments]\<rparr>"

text \<open>
  \<open>traceSegmentsExplicit\<close>: the loop over \<open>s\<close>, which reads \<open>getNumSegments\<close> anew at
  every test and dereferences the kernel without a check.
\<close>

function traceSegmentsExplicit_from ::
  "int \<Rightarrow> track_ref \<Rightarrow> 'k MOCKernel option \<Rightarrow> 'k world \<Rightarrow> error + 'k world" where
  "traceSegmentsExplicit_from s track kern w =
     (if s < int (length (segments_of w track)) then
        (case kernel_execute kern track
                (seg_length (segments_of w track ! nat s))
                (seg_material (segments_of w track ! nat s))
                (seg_region_id (segments_of w track ! nat s))
                (seg_cmfd_surface_fwd (segments_of w track ! nat s))
                (seg_cmfd_surface_bwd (segments_of w track ! nat s)) w of
           Inl e \<Rightarrow> Inl e
         | Inr w' \<Rightarrow> traceSegmentsExplicit_from (s + 1) track kern w')
      else Inr w)"
  by pat_completeness auto
termination
  by (relation "measure (\<lambda>(s, track, kern, w). nat (int (length (segments_of w track)) - s))")
     (auto simp: kernel_execute_def split: option.splits)

definition traceSegmentsExplicit ::
  "track_ref \<Rightarrow> 'k MOCKernel option \<Rightarrow> 'k world \<Rightarrow> error + 'k world" where
  "traceSegmentsExplicit track kern w = traceSegmentsExplicit_from 0 track kern w"

text \<open>
  The body of the two loops over tracks (lines 78 to 86 and lines 120 to 128 of the
  file) is the same sequence of statements on the track the loop has selected: under the
  guard \<open>kernel != NULL\<close> the kernel is notified and the segments are traced; then the
  segments are fetched from the track and handed to the hook.
\<close>

definition visit_track ::
  "'k MOCKernel option \<Rightarrow> track_ref \<Rightarrow> 'k world \<Rightarrow> error + 'k world" where
  "visit_track kern track w =
     (case (if kern \<noteq> None then
              (case kernel_newTrack kern track w of
                 Inl e \<Rightarrow> Inl e
               | Inr w1 \<Rightarrow> traceSegmentsExplicit track kern w1)
            else Inr w) of
        Inl e \<Rightarrow> Inl e
      | Inr w2 \<Rightarrow> Inr (onTrack track (segments_of w2 track) w2))"

text \<open>
  \<open>loopOverTracks2D\<close>: the loop over the position \<open>i\<close> within the angle \<open>a\<close>, and the
  loop over the angles. The file opens no parallel region. The functions of this section
  describe a call by one thread outside any parallel region, where the worksharing pragma
  on a loop leaves all its iterations to that thread, in index order. The call by every
  thread of a team, where the pragmas share the iterations among the threads, is
  described further down, by the steps of the threads.
\<close>

function loopOverTracks2D_i ::
  "TrackGenerator \<Rightarrow> 'k MOCKernel option \<Rightarrow> int \<Rightarrow> int \<Rightarrow> int \<Rightarrow> 'k world \<Rightarrow>
   error + 'k world" where
  "loopOverTracks2D_i tg kern a num_xy i w =
     (if i < num_xy then
        (case visit_track kern (getTracks tg a i) w of
           Inl e \<Rightarrow> Inl e
         | Inr w' \<Rightarrow> loopOverTracks2D_i tg kern a num_xy (i + 1) w')
      else Inr w)"
  by pat_completeness auto
termination
  by (relation "measure (\<lambda>(tg, kern, a, num_xy, i, w). nat (num_xy - i))") auto

function loopOverTracks2D_a ::
  "TrackGenerator \<Rightarrow> 'k MOCKernel option \<Rightarrow> int \<Rightarrow> int \<Rightarrow> 'k world \<Rightarrow> error + 'k world" where
  "loopOverTracks2D_a tg kern num_azim a w =
     (if a < cpp_div num_azim 2 then
        (case loopOverTracks2D_i tg kern a (getNumX tg a + getNumY tg a) 0 w of
           Inl e \<Rightarrow> Inl e
         | Inr w' \<Rightarrow> loopOverTracks2D_a tg kern num_azim (a + 1) w')
      else Inr w)"
  by pat_completeness auto
termination
  by (relation "measure (\<lambda>(tg, kern, num_azim, a, w). nat (cpp_div num_azim 2 - a))") auto

definition loopOverTracks2D ::
  "TraverseTracks \<Rightarrow> 'k MOCKernel option \<Rightarrow> 'k world \<Rightarrow> error + 'k world" where
  "loopOverTracks2D tt kern w =
     loopOverTracks2D_a (track_generator tt) kern (getNumAzim (track_generator tt)) 0 w"

text \<open>
  \<open>loopOverTracksByParallelGroup2D\<close>: the loop over \<open>track_id\<close> within a group, and the
  loop over the groups, which carries \<open>min_track\<close> and \<open>max_track\<close>.
\<close>

function loopOverTracksByParallelGroup2D_track ::
  "TrackGenerator \<Rightarrow> 'k MOCKernel option \<Rightarrow> int \<Rightarrow> int \<Rightarrow> 'k world \<Rightarrow> error + 'k world" where
  "loopOverTracksByParallelGroup2D_track tg kern max_track track_id w =
     (if track_id < max_track then
        (case visit_track kern (getTracksByParallelGroup tg track_id) w of
           Inl e \<Rightarrow> Inl e
         | Inr w' \<Rightarrow>
             loopOverTracksByParallelGroup2D_track tg kern max_track (track_id + 1) w')
      else Inr w)"
  by pat_completeness auto
termination
  by (relation "measure (\<lambda>(tg, kern, max_track, track_id, w). nat (max_track - track_id))")
     auto

function loopOverTracksByParallelGroup2D_group ::
  "TrackGenerator \<Rightarrow> 'k MOCKernel option \<Rightarrow> int \<Rightarrow> int \<Rightarrow> int \<Rightarrow> int \<Rightarrow> 'k world \<Rightarrow>
   error + 'k world" where
  "loopOverTracksByParallelGroup2D_group tg kern num_track_groups i min_track max_track w =
     (if i < num_track_groups then
        (case loopOverTracksByParallelGroup2D_track tg kern
                (max_track + getNumTracksByParallelGroup tg i) max_track w of
           Inl e \<Rightarrow> Inl e
         | Inr w' \<Rightarrow>
             loopOverTracksByParallelGroup2D_group tg kern num_track_groups (i + 1)
               max_track (max_track + getNumTracksByParallelGroup tg i) w')
      else Inr w)"
  by pat_completeness auto
termination
  by (relation "measure (\<lambda>(tg, kern, num_track_groups, i, min_track, max_track, w).
                   nat (num_track_groups - i))") auto

definition loopOverTracksByParallelGroup2D ::
  "TraverseTracks \<Rightarrow> 'k MOCKernel option \<Rightarrow> 'k world \<Rightarrow> error + 'k world" where
  "loopOverTracksByParallelGroup2D tt kern w =
     loopOverTracksByParallelGroup2D_group (track_generator tt) kern
       (getNumParallelTrackGroups (track_generator tt)) 0 0 0 w"

text \<open>
  The two entry points: a switch on the cached mode with the single case
  \<open>EXPLICIT_2D\<close> and no default, so that every other mode falls out of the switch and
  the call returns.
\<close>

definition loopOverTracks ::
  "TraverseTracks \<Rightarrow> 'k MOCKernel option \<Rightarrow> 'k world \<Rightarrow> error + 'k world" where
  "loopOverTracks tt kern w =
     (case segment_formation tt of
        EXPLICIT_2D \<Rightarrow> loopOverTracks2D tt kern w
      | OTHER_FORMATION n \<Rightarrow> Inr w)"

definition loopOverTracksByParallelGroup ::
  "TraverseTracks \<Rightarrow> 'k MOCKernel option \<Rightarrow> 'k world \<Rightarrow> error + 'k world" where
  "loopOverTracksByParallelGroup tt kern w =
     (case segment_formation tt of
        EXPLICIT_2D \<Rightarrow> loopOverTracksByParallelGroup2D tt kern w
      | OTHER_FORMATION n \<Rightarrow> Inr w)"

section \<open>Describing a traversal\<close>

text \<open>
  The tracks in the order in which each traversal selects them: angle by angle over the
  first \<open>num_azim / 2\<close> angles and position by position within an angle; group by group
  and track id by track id within a group, each group beginning at the track id where the
  group before it ended.
\<close>

definition angle_tracks :: "TrackGenerator \<Rightarrow> int \<Rightarrow> track_ref list" where
  "angle_tracks tg a = map (getTracks tg a) [0..getNumX tg a + getNumY tg a - 1]"

definition all_tracks :: "TrackGenerator \<Rightarrow> track_ref list" where
  "all_tracks tg = concat (map (angle_tracks tg) [0..cpp_div (getNumAzim tg) 2 - 1])"

definition group_min :: "TrackGenerator \<Rightarrow> int \<Rightarrow> int" where
  "group_min tg g = sum_list (map (getNumTracksByParallelGroup tg) [0..g - 1])"

definition group_tracks :: "TrackGenerator \<Rightarrow> int \<Rightarrow> track_ref list" where
  "group_tracks tg g =
     map (getTracksByParallelGroup tg) [group_min tg g..group_min tg (g + 1) - 1]"

definition grouped_tracks :: "TrackGenerator \<Rightarrow> track_ref list" where
  "grouped_tracks tg =
     concat (map (group_tracks tg) [0..getNumParallelTrackGroups tg - 1])"

text \<open>
  What one visit of a track leaves in the trace and in the world. The segments current
  at the visit are those the track holds once the kernel, if there is one, has been
  notified of the track.
\<close>

definition exec_event :: "track_ref \<Rightarrow> segment \<Rightarrow> event" where
  "exec_event t seg =
     Execute t (seg_length seg) (seg_material seg) (seg_region_id seg)
       (seg_cmfd_surface_fwd seg) (seg_cmfd_surface_bwd seg)"

definition exec_state :: "'k MOCKernel \<Rightarrow> segment \<Rightarrow> 'k \<Rightarrow> 'k" where
  "exec_state k seg ks =
     execute k (seg_length seg) (seg_material seg) (seg_region_id seg)
       (seg_cmfd_surface_fwd seg) (seg_cmfd_surface_bwd seg) ks"

definition current_segments ::
  "'k MOCKernel option \<Rightarrow> track_ref \<Rightarrow> 'k world \<Rightarrow> segment list" where
  "current_segments kern t w =
     (case kern of
        None \<Rightarrow> segments_of w t
      | Some k \<Rightarrow> fst (newTrack k t (segments_of w t) (kernel_state w)))"

definition kernel_events ::
  "'k MOCKernel option \<Rightarrow> track_ref \<Rightarrow> 'k world \<Rightarrow> event list" where
  "kernel_events kern t w =
     (case kern of
        None \<Rightarrow> []
      | Some k \<Rightarrow> NewTrack t # map (exec_event t) (current_segments kern t w))"

definition track_events ::
  "'k MOCKernel option \<Rightarrow> track_ref \<Rightarrow> 'k world \<Rightarrow> event list" where
  "track_events kern t w =
     kernel_events kern t w @ [OnTrack t (current_segments kern t w)]"

definition visit :: "'k MOCKernel option \<Rightarrow> track_ref \<Rightarrow> 'k world \<Rightarrow> 'k world" where
  "visit kern t w =
     (case kern of
        None \<Rightarrow> w\<lparr>trace := trace w @ track_events kern t w\<rparr>
      | Some k \<Rightarrow>
          w\<lparr>segments_of := (segments_of w)(t := current_segments kern t w),
            kernel_state :=
              fold (exec_state k) (current_segments kern t w)
                (snd (newTrack k t (segments_of w t) (kernel_state w))),
            trace := trace w @ track_events kern t w\<rparr>)"

fun events_of_tracks ::
  "'k MOCKernel option \<Rightarrow> track_ref list \<Rightarrow> 'k world \<Rightarrow> event list" where
  "events_of_tracks kern [] w = []"
| "events_of_tracks kern (t # ts) w =
     track_events kern t w @ events_of_tracks kern ts (visit kern t w)"

text \<open>Reading a trace: the hook calls, the kernel notifications, the segments consumed.\<close>

fun hooked_tracks :: "event list \<Rightarrow> track_ref list" where
  "hooked_tracks [] = []"
| "hooked_tracks (OnTrack t segs # es) = t # hooked_tracks es"
| "hooked_tracks (e # es) = hooked_tracks es"


fun kernel_visits :: "event list \<Rightarrow> (track_ref \<times> segment) list" where
  "kernel_visits [] = []"
| "kernel_visits (Execute t l m r f b # es) =
     (t, \<lparr>seg_length = l, seg_material = m, seg_region_id = r,
          seg_cmfd_surface_fwd = f, seg_cmfd_surface_bwd = b\<rparr>) # kernel_visits es"
| "kernel_visits (e # es) = kernel_visits es"

fun hook_visits :: "event list \<Rightarrow> (track_ref \<times> segment) list" where
  "hook_visits [] = []"
| "hook_visits (OnTrack t segs # es) = map (Pair t) segs @ hook_visits es"
| "hook_visits (e # es) = hook_visits es"

fun event_track :: "event \<Rightarrow> track_ref" where
  "event_track (NewTrack t) = t"
| "event_track (Execute t l m r f b) = t"
| "event_track (OnTrack t segs) = t"

text \<open>A kernel whose two methods do nothing.\<close>

definition noop_kernel :: "unit MOCKernel" where
  "noop_kernel =
     \<lparr>newTrack = (\<lambda>t segs ks. (segs, ks)), execute = (\<lambda>l m r f b ks. ks)\<rparr>"

section \<open>Example stores, worlds and kernels\<close>

definition ex_seg :: "nat \<Rightarrow> segment" where
  "ex_seg n =
     \<lparr>seg_length = 1, seg_material = n, seg_region_id = int n,
      seg_cmfd_surface_fwd = - 1, seg_cmfd_surface_bwd = - 1\<rparr>"

text \<open>
  One used angle with the tracks 0 and 1; two parallel groups of one track each, which
  list the same two tracks in the other order.
\<close>

definition two_track_store :: TrackGenerator where
  "two_track_store =
     \<lparr>getSegmentFormation = EXPLICIT_2D,
      getTracks = (\<lambda>a i. nat i),
      getNumAzim = 2,
      getNumX = (\<lambda>a. 1),
      getNumY = (\<lambda>a. 1),
      getTracksByParallelGroup = (\<lambda>j. nat (1 - j)),
      getNumParallelTrackGroups = 2,
      getNumTracksByParallelGroup = (\<lambda>g. 1)\<rparr>"

text \<open>The tracks 0 and 1 hold one segment each; every other track holds none.\<close>

definition two_track_world :: "'k \<Rightarrow> 'k world" where
  "two_track_world ks =
     \<lparr>segments_of = (\<lambda>t. if t < 2 then [ex_seg t] else []),
      kernel_state = ks,
      trace = []\<rparr>"

text \<open>An engine whose cached mode is not \<open>EXPLICIT_2D\<close>.\<close>

definition other_mode_engine :: TraverseTracks where
  "other_mode_engine =
     TraverseTracks_new (two_track_store\<lparr>getSegmentFormation := OTHER_FORMATION 0\<rparr>)"

text \<open>
  Four azimuthal angles, so that two are used, with three tracks at each: the tracks 0
  to 5. One parallel group lists the six tracks.
\<close>

definition six_track_store :: TrackGenerator where
  "six_track_store =
     \<lparr>getSegmentFormation = EXPLICIT_2D,
      getTracks = (\<lambda>a i. nat (3 * a + i)),
      getNumAzim = 4,
      getNumX = (\<lambda>a. 2),
      getNumY = (\<lambda>a. 1),
      getTracksByParallelGroup = (\<lambda>j. nat j),
      getNumParallelTrackGroups = 1,
      getNumTracksByParallelGroup = (\<lambda>g. 6)\<rparr>"

definition one_empty_world :: "'k \<Rightarrow> 'k world" where
  "one_empty_world ks =
     \<lparr>segments_of = (\<lambda>t. if t = 1 then [ex_seg 1] else []),
      kernel_state = ks,
      trace = []\<rparr>"


text \<open>
  A kernel that counts the notifications it has received and, at the first one, clears
  the segments of the track it is notified of.
\<close>

definition clearing_kernel :: "nat MOCKernel" where
  "clearing_kernel =
     \<lparr>newTrack = (\<lambda>t segs n. (if n = 0 then [] else segs, Suc n)),
      execute = (\<lambda>l m r f b n. n)\<rparr>"

text \<open>The trace a call leaves, if it returns.\<close>

definition run_trace :: "error + 'k world \<Rightarrow> event list option" where
  "run_trace r = (case r of Inl e \<Rightarrow> None | Inr w \<Rightarrow> Some (trace w))"

text \<open>
  A kernel regenerates statelessly when the segments its \<open>newTrack\<close> leaves in a track
  are determined by the track and the segments the track held, whatever the state of the
  kernel. A kernel that leaves the segments as they are does so; so does an absent kernel.
\<close>

definition stateless_regeneration :: "'k MOCKernel option \<Rightarrow> bool" where
  "stateless_regeneration kern =
     (case kern of
        None \<Rightarrow> True
      | Some k \<Rightarrow> \<forall>t segs ks ks'. fst (newTrack k t segs ks) = fst (newTrack k t segs ks'))"

text \<open>
  The hook calls of a trace with their arguments, and the world a traversal of the tracks
  \<open>ts\<close> has reached when it selects its track number \<open>n\<close> (counting from 0).
\<close>

fun hook_calls :: "event list \<Rightarrow> (track_ref \<times> segment list) list" where
  "hook_calls [] = []"
| "hook_calls (OnTrack t segs # es) = (t, segs) # hook_calls es"
| "hook_calls (e # es) = hook_calls es"

definition reached ::
  "'k MOCKernel option \<Rightarrow> track_ref list \<Rightarrow> 'k world \<Rightarrow> nat \<Rightarrow> 'k world" where
  "reached kern ts w n = fold (visit kern) (take n ts) w"

text \<open>A kernel whose \<open>newTrack\<close> gives a track without segments one segment.\<close>

definition filling_kernel :: "unit MOCKernel" where
  "filling_kernel =
     \<lparr>newTrack = (\<lambda>t segs ks. (if segs = [] then [ex_seg 7] else segs, ks)),
      execute = (\<lambda>l m r f b ks. ks)\<rparr>"

section \<open>The loops in a team of threads\<close>































section \<open>The loops as folds over the tracks\<close>

declare traceSegmentsExplicit_from.simps [simp del]
declare loopOverTracks2D_i.simps [simp del]
declare loopOverTracks2D_a.simps [simp del]
declare loopOverTracksByParallelGroup2D_track.simps [simp del]
declare loopOverTracksByParallelGroup2D_group.simps [simp del]

lemma traceSegmentsExplicit_from_Some:
  "0 \<le> s \<Longrightarrow>
   traceSegmentsExplicit_from s t (Some k) w =
     Inr (w\<lparr>kernel_state :=
              fold (exec_state k) (drop (nat s) (segments_of w t)) (kernel_state w),
            trace := trace w @ map (exec_event t) (drop (nat s) (segments_of w t))\<rparr>)"
proof (induction s t "Some k" w rule: traceSegmentsExplicit_from.induct)
  case (1 s track w)
  show ?case
  proof (cases "s < int (length (segments_of w track))")
    case True
    let ?seg = "segments_of w track ! nat s"
    let ?w' = "w\<lparr>kernel_state := exec_state k ?seg (kernel_state w),
                  trace := trace w @ [exec_event track ?seg]\<rparr>"
    have ex: "kernel_execute (Some k) track (seg_length ?seg) (seg_material ?seg)
                (seg_region_id ?seg) (seg_cmfd_surface_fwd ?seg) (seg_cmfd_surface_bwd ?seg) w
              = Inr ?w'"
      by (simp add: kernel_execute_def exec_state_def exec_event_def)
    have dr: "drop (nat s) (segments_of w track)
                = ?seg # drop (nat (s + 1)) (segments_of w track)"
      using True "1.prems" by (simp add: Cons_nth_drop_Suc nat_add_distrib)
    have ih: "traceSegmentsExplicit_from (s + 1) track (Some k) ?w' =
           Inr (?w'\<lparr>kernel_state :=
                       fold (exec_state k) (drop (nat (s + 1)) (segments_of ?w' track))
                         (kernel_state ?w'),
                     trace := trace ?w'
                       @ map (exec_event track) (drop (nat (s + 1)) (segments_of ?w' track))\<rparr>)"
      using "1.hyps"[OF True ex] "1.prems" by simp
    show ?thesis
      by (subst traceSegmentsExplicit_from.simps) (simp add: True ex ih dr)
  next
    case False
    then show ?thesis
      by (subst traceSegmentsExplicit_from.simps) simp
  qed
qed

lemma traceSegmentsExplicit_Some:
  "traceSegmentsExplicit t (Some k) w =
     Inr (w\<lparr>kernel_state := fold (exec_state k) (segments_of w t) (kernel_state w),
            trace := trace w @ map (exec_event t) (segments_of w t)\<rparr>)"
  by (simp add: traceSegmentsExplicit_def traceSegmentsExplicit_from_Some)

lemma visit_track_eq: "visit_track kern t w = Inr (visit kern t w)"
proof (cases kern)
  case None
  then show ?thesis
    by (simp add: visit_track_def visit_def onTrack_def track_events_def kernel_events_def
        current_segments_def)
next
  case (Some k)
  then show ?thesis
    by (simp add: visit_track_def visit_def onTrack_def track_events_def kernel_events_def
        current_segments_def kernel_newTrack_def traceSegmentsExplicit_Some)
qed

lemma loopOverTracks2D_i_eq:
  "loopOverTracks2D_i tg kern a num_xy i w =
     Inr (fold (visit kern) (map (getTracks tg a) [i..num_xy - 1]) w)"
proof (induction "nat (num_xy - i)" arbitrary: i w)
  case 0
  then show ?case
    by (subst loopOverTracks2D_i.simps) simp
next
  case (Suc n)
  then have lt: "i < num_xy" and n: "n = nat (num_xy - (i + 1))"
    by linarith+
  have up: "[i..num_xy - 1] = i # [i + 1..num_xy - 1]"
    using lt by (simp add: upto_rec1)
  show ?case
    by (subst loopOverTracks2D_i.simps) (simp add: lt visit_track_eq up Suc.hyps(1)[OF n])
qed

lemma loopOverTracks2D_a_eq:
  "loopOverTracks2D_a tg kern num_azim a w =
     Inr (fold (visit kern) (concat (map (angle_tracks tg) [a..cpp_div num_azim 2 - 1])) w)"
proof (induction "nat (cpp_div num_azim 2 - a)" arbitrary: a w)
  case 0
  then show ?case
    by (subst loopOverTracks2D_a.simps) simp
next
  case (Suc n)
  then have lt: "a < cpp_div num_azim 2" and n: "n = nat (cpp_div num_azim 2 - (a + 1))"
    by linarith+
  have up: "[a..cpp_div num_azim 2 - 1] = a # [a + 1..cpp_div num_azim 2 - 1]"
    using lt by (simp add: upto_rec1)
  show ?case
    by (subst loopOverTracks2D_a.simps)
       (simp add: lt up loopOverTracks2D_i_eq angle_tracks_def Suc.hyps(1)[OF n])
qed

lemma loopOverTracks2D_eq:
  "loopOverTracks2D tt kern w = Inr (fold (visit kern) (all_tracks (track_generator tt)) w)"
  by (simp add: loopOverTracks2D_def loopOverTracks2D_a_eq all_tracks_def)

lemma loopOverTracksByParallelGroup2D_track_eq:
  "loopOverTracksByParallelGroup2D_track tg kern max_track track_id w =
     Inr (fold (visit kern) (map (getTracksByParallelGroup tg) [track_id..max_track - 1]) w)"
proof (induction "nat (max_track - track_id)" arbitrary: track_id w)
  case 0
  then show ?case
    by (subst loopOverTracksByParallelGroup2D_track.simps) simp
next
  case (Suc n)
  then have lt: "track_id < max_track" and n: "n = nat (max_track - (track_id + 1))"
    by linarith+
  have up: "[track_id..max_track - 1] = track_id # [track_id + 1..max_track - 1]"
    using lt by (simp add: upto_rec1)
  show ?case
    by (subst loopOverTracksByParallelGroup2D_track.simps)
       (simp add: lt visit_track_eq up Suc.hyps(1)[OF n])
qed

lemma group_min_0: "group_min tg 0 = 0"
  by (simp add: group_min_def)

lemma group_min_step:
  "0 \<le> g \<Longrightarrow> group_min tg (g + 1) = group_min tg g + getNumTracksByParallelGroup tg g"
  by (simp add: group_min_def upto_rec2)

lemma loopOverTracksByParallelGroup2D_group_eq:
  "0 \<le> i \<Longrightarrow> max_track = group_min tg i \<Longrightarrow>
   loopOverTracksByParallelGroup2D_group tg kern num_track_groups i min_track max_track w =
     Inr (fold (visit kern) (concat (map (group_tracks tg) [i..num_track_groups - 1])) w)"
proof (induction "nat (num_track_groups - i)" arbitrary: i min_track max_track w)
  case 0
  then show ?case
    by (subst loopOverTracksByParallelGroup2D_group.simps) simp
next
  case (Suc n)
  then have lt: "i < num_track_groups" and n: "n = nat (num_track_groups - (i + 1))"
    by linarith+
  have up: "[i..num_track_groups - 1] = i # [i + 1..num_track_groups - 1]"
    using lt by (simp add: upto_rec1)
  have nx: "max_track + getNumTracksByParallelGroup tg i = group_min tg (i + 1)"
    using Suc.prems by (simp add: group_min_step)
  have i1: "0 \<le> i + 1"
    using Suc.prems by simp
  have gt: "map (getTracksByParallelGroup tg) [max_track..group_min tg (i + 1) - 1]
              = group_tracks tg i"
    using Suc.prems by (simp add: group_tracks_def)
  show ?case
    by (subst loopOverTracksByParallelGroup2D_group.simps)
       (simp add: lt up loopOverTracksByParallelGroup2D_track_eq nx gt
          Suc.hyps(1)[OF n i1 refl])
qed

lemma loopOverTracksByParallelGroup2D_eq:
  "loopOverTracksByParallelGroup2D tt kern w =
     Inr (fold (visit kern) (grouped_tracks (track_generator tt)) w)"
  by (simp add: loopOverTracksByParallelGroup2D_def loopOverTracksByParallelGroup2D_group_eq
      group_min_0 grouped_tracks_def)

section \<open>Traces of traversals\<close>

lemma trace_visit: "trace (visit kern t w) = trace w @ track_events kern t w"
  by (cases kern) (simp_all add: visit_def)

lemma trace_fold_visit:
  "trace (fold (visit kern) ts w) = trace w @ events_of_tracks kern ts w"
  by (induction ts arbitrary: w) (simp_all add: trace_visit)

lemma fold_visit_None:
  "fold (visit None) ts w =
     w\<lparr>trace := trace w @ map (\<lambda>t. OnTrack t (segments_of w t)) ts\<rparr>"
  by (induction ts arbitrary: w)
     (simp_all add: visit_def track_events_def kernel_events_def current_segments_def)

lemma all_tracks_two_track_store: "all_tracks two_track_store = [0, 1]"
  by (simp add: all_tracks_def angle_tracks_def two_track_store_def cpp_div_def upto.simps)

lemma grouped_tracks_two_track_store: "grouped_tracks two_track_store = [1, 0]"
  by (simp add: grouped_tracks_def group_tracks_def group_min_def two_track_store_def
      upto.simps)


lemma hooked_tracks_append: "hooked_tracks (es @ fs) = hooked_tracks es @ hooked_tracks fs"
  by (induction es rule: hooked_tracks.induct) simp_all


lemma hooked_tracks_exec: "hooked_tracks (map (exec_event t) segs) = []"
  by (induction segs) (simp_all add: exec_event_def)


lemma hooked_tracks_track_events: "hooked_tracks (track_events kern t w) = [t]"
  by (cases kern)
     (simp_all add: track_events_def kernel_events_def hooked_tracks_append hooked_tracks_exec)


lemma hooked_tracks_events_of_tracks: "hooked_tracks (events_of_tracks kern ts w) = ts"
  by (induction ts arbitrary: w) (simp_all add: hooked_tracks_append hooked_tracks_track_events)


lemma all_tracks_six_track_store: "all_tracks six_track_store = [0, 1, 2, 3, 4, 5]"
  by (simp add: all_tracks_def angle_tracks_def six_track_store_def cpp_div_def upto.simps)

lemma event_track_exec: "event_track (exec_event t seg) = t"
  by (simp add: exec_event_def)

lemma event_track_track_events: "e \<in> set (track_events kern t w) \<Longrightarrow> event_track e = t"
  by (cases kern) (auto simp add: track_events_def kernel_events_def event_track_exec)

lemma segments_of_visit_other: "t' \<noteq> t \<Longrightarrow> segments_of (visit kern t' w) t = segments_of w t"
  by (cases kern) (simp_all add: visit_def)

lemma filter_track_events_other:
  "t' \<noteq> t \<Longrightarrow> filter (\<lambda>e. event_track e = t) (track_events kern t' w) = []"
  by (auto simp add: filter_empty_conv dest: event_track_track_events)

lemma filter_events_not_selected:
  "t \<notin> set ts \<Longrightarrow> filter (\<lambda>e. event_track e = t) (events_of_tracks kern ts w) = []"
  by (induction ts arbitrary: w) (simp_all add: filter_track_events_other)

lemma track_events_empty:
  "fst (newTrack k t (segments_of w t) (kernel_state w)) = [] \<Longrightarrow>
   track_events (Some k) t w = [NewTrack t, OnTrack t []]"
  by (simp add: track_events_def kernel_events_def current_segments_def)

lemma filter_events_empty_track:
  "count_list ts t = 1 \<Longrightarrow> \<forall>ks. fst (newTrack k t (segments_of w t) ks) = [] \<Longrightarrow>
   filter (\<lambda>e. event_track e = t) (events_of_tracks (Some k) ts w) = [NewTrack t, OnTrack t []]"
proof (induction ts arbitrary: w)
  case Nil
  then show ?case by simp
next
  case (Cons t' ts)
  show ?case
  proof (cases "t' = t")
    case True
    with Cons.prems(1) have "t \<notin> set ts"
      by (simp add: count_list_0_iff)
    then show ?thesis
      using True Cons.prems(2) by (simp add: filter_events_not_selected track_events_empty)
  next
    case False
    with Cons.prems(1) have c: "count_list ts t = 1" by simp
    have "\<forall>ks. fst (newTrack k t (segments_of (visit (Some k) t' w) t) ks) = []"
      using False Cons.prems(2) by (simp add: segments_of_visit_other)
    from Cons.IH [OF c this] show ?thesis
      using False by (simp add: filter_track_events_other)
  qed
qed

lemma split_at_first_hook:
  "hooked_tracks B = [] \<Longrightarrow> B @ OnTrack t' s' # rest = xs @ OnTrack t segs # ys \<Longrightarrow>
   (xs = B \<and> t = t' \<and> segs = s' \<and> ys = rest)
   \<or> (\<exists>us. xs = B @ OnTrack t' s' # us \<and> rest = us @ OnTrack t segs # ys)"
proof (induction B arbitrary: xs)
  case Nil
  then show ?case by (cases xs) auto
next
  case (Cons b B)
  from Cons.prems(1) have nb: "\<forall>u v. b \<noteq> OnTrack u v" and hB: "hooked_tracks B = []"
    by (cases b; simp)+
  from Cons.prems(2) nb obtain xs1 where xs: "xs = b # xs1"
    by (cases xs) auto
  with Cons.prems(2) have "B @ OnTrack t' s' # rest = xs1 @ OnTrack t segs # ys" by simp
  from Cons.IH [OF hB this] show ?case
    using xs by auto
qed

lemma events_of_tracks_Some_start:
  "events_of_tracks (Some k) ts w = []
   \<or> (\<exists>u fs. events_of_tracks (Some k) ts w = NewTrack u # fs)"
  by (cases ts) (simp_all add: track_events_def kernel_events_def)

lemma hooked_tracks_kernel_events: "hooked_tracks (kernel_events kern t w) = []"
  by (cases kern) (simp_all add: kernel_events_def hooked_tracks_exec)

lemma hook_follows_kernel_pass:
  "events_of_tracks (Some k) ts w = xs @ OnTrack t segs # ys \<Longrightarrow>
   (\<exists>xs'. xs = xs' @ NewTrack t # map (exec_event t) segs)
   \<and> (ys = [] \<or> (\<exists>u ys'. ys = NewTrack u # ys'))"
proof (induction ts arbitrary: w xs)
  case Nil
  then show ?case by simp
next
  case (Cons t' ts)
  let ?B = "kernel_events (Some k) t' w"
  let ?s = "current_segments (Some k) t' w"
  let ?rest = "events_of_tracks (Some k) ts (visit (Some k) t' w)"
  have "?B @ OnTrack t' ?s # ?rest = xs @ OnTrack t segs # ys"
    using Cons.prems by (simp add: track_events_def)
  from split_at_first_hook [OF hooked_tracks_kernel_events this]
  show ?case
  proof
    assume "xs = ?B \<and> t = t' \<and> segs = ?s \<and> ys = ?rest"
    then show ?thesis
      using events_of_tracks_Some_start [of k ts "visit (Some k) t' w"]
      by (simp add: kernel_events_def)
  next
    assume "\<exists>us. xs = ?B @ OnTrack t' ?s # us \<and> ?rest = us @ OnTrack t segs # ys"
    then obtain us where xs: "xs = ?B @ OnTrack t' ?s # us"
      and r: "?rest = us @ OnTrack t segs # ys" by blast
    from Cons.IH [OF r] obtain xs' where
      "us = xs' @ NewTrack t # map (exec_event t) segs"
      and y: "ys = [] \<or> (\<exists>u ys'. ys = NewTrack u # ys')" by blast
    then have "xs = (?B @ OnTrack t' ?s # xs') @ NewTrack t # map (exec_event t) segs"
      using xs by simp
    then show ?thesis using y by blast
  qed
qed

lemma hook_segments_None:
  "events_of_tracks None ts w = xs @ OnTrack t segs # ys \<Longrightarrow> segs = segments_of w t"
proof -
  assume a: "events_of_tracks None ts w = xs @ OnTrack t segs # ys"
  have "trace (fold (visit None) ts w) = trace w @ events_of_tracks None ts w"
    by (rule trace_fold_visit)
  then have "events_of_tracks None ts w = map (\<lambda>t. OnTrack t (segments_of w t)) ts"
    by (simp add: fold_visit_None)
  with a have "OnTrack t segs \<in> set (map (\<lambda>t. OnTrack t (segments_of w t)) ts)"
    by simp
  then show ?thesis by auto
qed

section \<open>Permuting the tracks of a traversal\<close>

lemma kernel_visits_append: "kernel_visits (es @ fs) = kernel_visits es @ kernel_visits fs"
  by (induction es rule: kernel_visits.induct) simp_all

lemma hook_visits_append: "hook_visits (es @ fs) = hook_visits es @ hook_visits fs"
  by (induction es rule: hook_visits.induct) simp_all

lemma mset_hom:
  assumes "\<And>xs ys. h (xs @ ys) = h xs @ h ys" and "mset es = mset fs"
  shows "mset (h es) = mset (h fs)"
  using assms(2)
proof (induction es arbitrary: fs)
  case Nil
  then show ?case by simp
next
  case (Cons e es)
  then have "e \<in> set fs"
    by (metis list.set_intros(1) mset_eq_setD)
  then obtain xs ys where fs: "fs = xs @ e # ys"
    by (auto dest: split_list)
  with Cons.prems have "mset es = mset (xs @ ys)" by simp
  then have "mset (h es) = mset (h (xs @ ys))" by (rule Cons.IH)
  moreover have "h (e # es) = h [e] @ h es"
    using assms(1) [of "[e]" es] by simp
  moreover have "h fs = h xs @ h [e] @ h ys"
    using assms(1) [of xs "e # ys"] assms(1) [of "[e]" ys] fs by simp
  ultimately show ?case
    by (simp add: assms(1))
qed

lemma current_segments_cong:
  "stateless_regeneration kern \<Longrightarrow> segments_of w t = segments_of w' t \<Longrightarrow>
   current_segments kern t w = current_segments kern t w'"
proof (cases kern)
  case None
  assume "segments_of w t = segments_of w' t"
  with None show ?thesis by (simp add: current_segments_def)
next
  case (Some k)
  assume "stateless_regeneration kern" and "segments_of w t = segments_of w' t"
  with Some show ?thesis
    by (simp add: current_segments_def stateless_regeneration_def)
qed

lemma track_events_cong:
  assumes "stateless_regeneration kern" and "segments_of w t = segments_of w' t"
  shows "track_events kern t w = track_events kern t w'"
proof -
  have "current_segments kern t w = current_segments kern t w'"
    using assms by (rule current_segments_cong)
  then show ?thesis
    by (cases kern) (simp_all only: track_events_def kernel_events_def option.case)
qed

lemma segments_of_visit:
  "segments_of (visit kern t w) = (segments_of w)(t := current_segments kern t w)"
  by (cases kern) (auto simp add: visit_def current_segments_def)

lemma segments_of_visit_cong:
  assumes "stateless_regeneration kern" and "segments_of w = segments_of w'"
  shows "segments_of (visit kern t w) = segments_of (visit kern t w')"
proof -
  have "current_segments kern t w = current_segments kern t w'"
    using assms(1) by (rule current_segments_cong) (simp only: assms(2))
  then show ?thesis
    by (simp only: segments_of_visit assms(2))
qed

lemma events_of_tracks_cong:
  "stateless_regeneration kern \<Longrightarrow> segments_of w = segments_of w' \<Longrightarrow>
   events_of_tracks kern ts w = events_of_tracks kern ts w'"
proof (induction ts arbitrary: w w')
  case Nil
  then show ?case by simp
next
  case (Cons t ts)
  have "track_events kern t w = track_events kern t w'"
    using Cons.prems(1) by (rule track_events_cong) (simp only: Cons.prems(2))
  moreover have "events_of_tracks kern ts (visit kern t w)
                   = events_of_tracks kern ts (visit kern t w')"
    using Cons.prems by (intro Cons.IH segments_of_visit_cong)
  ultimately show ?case by (simp only: events_of_tracks.simps)
qed

lemma events_of_tracks_swap:
  assumes "stateless_regeneration kern"
  shows "mset (events_of_tracks kern (a # b # ts) w)
           = mset (events_of_tracks kern (b # a # ts) w)"
proof (cases "a = b")
  case True
  then show ?thesis by simp
next
  case False
  have 1: "track_events kern b (visit kern a w) = track_events kern b w"
    using assms False by (intro track_events_cong) (simp_all add: segments_of_visit)
  have 2: "track_events kern a (visit kern b w) = track_events kern a w"
    using assms False by (intro track_events_cong) (simp_all add: segments_of_visit)
  have 3: "current_segments kern b (visit kern a w) = current_segments kern b w"
    using assms False by (intro current_segments_cong) (simp_all add: segments_of_visit)
  have 4: "current_segments kern a (visit kern b w) = current_segments kern a w"
    using assms False by (intro current_segments_cong) (simp_all add: segments_of_visit)
  have "segments_of (visit kern b (visit kern a w))
          = segments_of (visit kern a (visit kern b w))"
    using False by (simp add: segments_of_visit 3 4 fun_upd_twist)
  with assms have "events_of_tracks kern ts (visit kern b (visit kern a w))
          = events_of_tracks kern ts (visit kern a (visit kern b w))"
    by (rule events_of_tracks_cong)
  then show ?thesis
    by (simp add: 1 2)
qed

lemma events_of_tracks_to_front:
  assumes "stateless_regeneration kern"
  shows "mset (events_of_tracks kern (xs @ t # ys) w)
           = mset (events_of_tracks kern (t # xs @ ys) w)"
proof (induction xs arbitrary: w)
  case Nil
  then show ?case by simp
next
  case (Cons x xs)
  have "mset (events_of_tracks kern ((x # xs) @ t # ys) w)
          = mset (track_events kern x w)
            + mset (events_of_tracks kern (xs @ t # ys) (visit kern x w))"
    by simp
  also have "\<dots> = mset (track_events kern x w)
            + mset (events_of_tracks kern (t # xs @ ys) (visit kern x w))"
    by (simp only: Cons.IH)
  also have "\<dots> = mset (events_of_tracks kern (x # t # xs @ ys) w)"
    by simp
  also have "\<dots> = mset (events_of_tracks kern (t # x # xs @ ys) w)"
    using assms by (rule events_of_tracks_swap)
  finally show ?case by simp
qed

lemma events_of_tracks_permuted:
  assumes "stateless_regeneration kern" and "mset ts = mset ts'"
  shows "mset (events_of_tracks kern ts w) = mset (events_of_tracks kern ts' w)"
  using assms(2)
proof (induction ts arbitrary: ts' w)
  case Nil
  then show ?case by simp
next
  case (Cons t ts)
  then have "t \<in> set ts'"
    by (metis list.set_intros(1) mset_eq_setD)
  then obtain xs ys where ts': "ts' = xs @ t # ys"
    by (auto dest: split_list)
  with Cons.prems have "mset ts = mset (xs @ ys)" by simp
  then have "mset (events_of_tracks kern ts (visit kern t w))
               = mset (events_of_tracks kern (xs @ ys) (visit kern t w))"
    by (rule Cons.IH)
  then have "mset (events_of_tracks kern (t # ts) w)
               = mset (events_of_tracks kern (t # xs @ ys) w)"
    by simp
  also have "\<dots> = mset (events_of_tracks kern (xs @ t # ys) w)"
    using assms(1) by (rule events_of_tracks_to_front [symmetric])
  finally show ?case
    using ts' by simp
qed

text \<open>
  The two traversals read different arrays of the store and nothing in the engine relates
  them: for a store that reports no parallel group, \<open>loopOverTracks\<close> visits the two
  tracks of the angle and \<open>loopOverTracksByParallelGroup\<close> visits none.
\<close>

lemma store_without_groups_example:
  "mset (grouped_tracks (two_track_store\<lparr>getNumParallelTrackGroups := 0\<rparr>))
     \<noteq> mset (all_tracks (two_track_store\<lparr>getNumParallelTrackGroups := 0\<rparr>))
   \<and> loopOverTracks (TraverseTracks_new (two_track_store\<lparr>getNumParallelTrackGroups := 0\<rparr>))
         None (two_track_world ())
       = Inr ((two_track_world ())\<lparr>trace := [OnTrack 0 [ex_seg 0], OnTrack 1 [ex_seg 1]]\<rparr>)
   \<and> loopOverTracksByParallelGroup
         (TraverseTracks_new (two_track_store\<lparr>getNumParallelTrackGroups := 0\<rparr>))
         None (two_track_world ())
       = Inr (two_track_world ())"
proof -
  let ?tg = "two_track_store\<lparr>getNumParallelTrackGroups := 0\<rparr>"
  have a: "all_tracks ?tg = [0, 1]"
    by (simp add: all_tracks_def angle_tracks_def two_track_store_def cpp_div_def upto.simps)
  have g: "grouped_tracks ?tg = []"
    by (simp add: grouped_tracks_def)
  have m: "segment_formation (TraverseTracks_new ?tg) = EXPLICIT_2D"
    "track_generator (TraverseTracks_new ?tg) = ?tg"
    by (simp_all add: TraverseTracks_new_def two_track_store_def)
  have 1: "loopOverTracks (TraverseTracks_new ?tg) None (two_track_world ())
       = Inr (fold (visit None) (all_tracks ?tg) (two_track_world ()))"
    by (simp add: loopOverTracks_def loopOverTracks2D_eq m)
  have 2: "loopOverTracksByParallelGroup (TraverseTracks_new ?tg) None (two_track_world ())
       = Inr (fold (visit None) (grouped_tracks ?tg) (two_track_world ()))"
    by (simp add: loopOverTracksByParallelGroup_def loopOverTracksByParallelGroup2D_eq m)
  show ?thesis
    unfolding 1 2 fold_visit_None a g by (simp add: two_track_world_def)
qed

lemma hook_calls_append: "hook_calls (es @ fs) = hook_calls es @ hook_calls fs"
  by (induction es rule: hook_calls.induct) simp_all

lemma hook_calls_exec: "hook_calls (map (exec_event t) segs) = []"
  by (induction segs) (simp_all add: exec_event_def)

lemma hook_calls_track_events:
  "hook_calls (track_events kern t w) = [(t, segments_of (visit kern t w) t)]"
  by (cases kern)
     (simp_all add: track_events_def kernel_events_def hook_calls_append hook_calls_exec
        visit_def current_segments_def)

lemma hook_calls_events_of_tracks:
  "hook_calls (events_of_tracks kern ts w) =
     map (\<lambda>n. (ts ! n, segments_of (reached kern ts w (Suc n)) (ts ! n))) [0..<length ts]"
proof (induction ts arbitrary: w)
  case Nil
  then show ?case by simp
next
  case (Cons t ts)
  have "map (\<lambda>n. ((t # ts) ! n, segments_of (reached kern (t # ts) w (Suc n)) ((t # ts) ! n)))
          [0..<length (t # ts)]
        = (t, segments_of (visit kern t w) t)
          # map (\<lambda>n. (ts ! n, segments_of (reached kern ts (visit kern t w) (Suc n)) (ts ! n)))
              [0..<length ts]"
    by (simp add: map_upt_Suc reached_def del: upt_Suc)
  then show ?case
    by (simp add: hook_calls_append hook_calls_track_events Cons.IH del: upt_Suc)
qed

lemma reached_Suc:
  "n < length ts \<Longrightarrow> reached kern ts w (Suc n) = visit kern (ts ! n) (reached kern ts w n)"
  by (simp add: reached_def take_Suc_conv_app_nth)

lemma segments_after_visit:
  "segments_of (visit kern t v) t =
     (case kern of
        None \<Rightarrow> segments_of v t
      | Some k \<Rightarrow> fst (newTrack k t (segments_of v t) (kernel_state v)))"
  by (cases kern) (simp_all add: visit_def current_segments_def)

lemma hook_receives_current:
  "reached kern ts w (length ts) = fold (visit kern) ts w
   \<and> hook_calls (events_of_tracks kern ts w) =
       map (\<lambda>n. (ts ! n, segments_of (reached kern ts w (Suc n)) (ts ! n))) [0..<length ts]
   \<and> (\<forall>n<length ts.
         visit_track kern (ts ! n) (reached kern ts w n) = Inr (reached kern ts w (Suc n))
         \<and> segments_of (reached kern ts w (Suc n)) (ts ! n) =
             (case kern of
                None \<Rightarrow> segments_of (reached kern ts w n) (ts ! n)
              | Some k \<Rightarrow>
                  fst (newTrack k (ts ! n) (segments_of (reached kern ts w n) (ts ! n))
                         (kernel_state (reached kern ts w n)))))"
  by (simp add: hook_calls_events_of_tracks visit_track_eq reached_Suc segments_after_visit)
     (simp add: reached_def)

section \<open>Runs of a team\<close>


















subsection \<open>The two loops as instances\<close>







subsection \<open>A team without kernels\<close>




subsection \<open>Two groups\<close>





section \<open>The claims\<close>

text \<open>
  C7. With an absent kernel (\<open>NULL\<close>) and the mode \<open>EXPLICIT_2D\<close>, each of the two
  entry points returns, and the world it returns is the world it was given with one
  \<open>onTrack\<close> call appended to the trace for every track the traversal selects, in the
  order of selection, each call with the segments the track holds. So no kernel method is
  called (the trace gains neither a \<open>NewTrack\<close> nor an \<open>Execute\<close> event), the segments of
  every track are left as they were, and the hook runs once for every track.
\<close>

theorem absent_kernel_hook_only:
  assumes "segment_formation tt = EXPLICIT_2D"
  shows "loopOverTracks tt None w =
           Inr (w\<lparr>trace := trace w
                  @ map (\<lambda>t. OnTrack t (segments_of w t)) (all_tracks (track_generator tt))\<rparr>)
         \<and> loopOverTracksByParallelGroup tt None w =
           Inr (w\<lparr>trace := trace w
                  @ map (\<lambda>t. OnTrack t (segments_of w t))
                      (grouped_tracks (track_generator tt))\<rparr>)"
  using assms
  by (simp add: loopOverTracks_def loopOverTracksByParallelGroup_def loopOverTracks2D_eq
      loopOverTracksByParallelGroup2D_eq fold_visit_None)

theorem absent_kernel_hook_only_witness:
  "segment_formation (TraverseTracks_new two_track_store) = EXPLICIT_2D
   \<and> loopOverTracks (TraverseTracks_new two_track_store) None (two_track_world ())
       = Inr ((two_track_world ())\<lparr>trace := [OnTrack 0 [ex_seg 0], OnTrack 1 [ex_seg 1]]\<rparr>)
   \<and> loopOverTracksByParallelGroup (TraverseTracks_new two_track_store) None (two_track_world ())
       = Inr ((two_track_world ())\<lparr>trace := [OnTrack 1 [ex_seg 1], OnTrack 0 [ex_seg 0]]\<rparr>)"
proof -
  have m: "segment_formation (TraverseTracks_new two_track_store) = EXPLICIT_2D"
    by (simp add: TraverseTracks_new_def two_track_store_def)
  have g: "track_generator (TraverseTracks_new two_track_store) = two_track_store"
    by (simp add: TraverseTracks_new_def)
  show ?thesis
    using absent_kernel_hook_only [OF m, of "two_track_world ()"] m
    by (simp add: g all_tracks_two_track_store grouped_tracks_two_track_store
        two_track_world_def)
qed

text \<open>
  C10. Dereferencing a null kernel is the error \<open>NullPointerDereference\<close> of the model:
  \<open>kernel->newTrack\<close> on a null kernel raises it, and so does \<open>traceSegmentsExplicit\<close>
  on a null kernel as soon as the track has a segment. Neither entry point ever returns
  an error, whatever the kernel pointer, the engine and the world; in particular a call
  with a null kernel returns a world.
\<close>

theorem null_kernel_never_dereferenced:
  "(\<exists>w'. loopOverTracks tt None w = Inr w')
   \<and> (\<exists>w'. loopOverTracksByParallelGroup tt None w = Inr w')
   \<and> (\<forall>e. loopOverTracks tt kern w \<noteq> Inl e)
   \<and> (\<forall>e. loopOverTracksByParallelGroup tt kern w \<noteq> Inl e)
   \<and> (segments_of w t \<noteq> [] \<longrightarrow>
        traceSegmentsExplicit t None w = Inl NullPointerDereference)
   \<and> kernel_newTrack None t w = Inl NullPointerDereference"
proof -
  have 1: "\<exists>w'. loopOverTracks tt kern w = Inr w'" for kern :: "'a MOCKernel option"
    by (cases "segment_formation tt") (simp_all add: loopOverTracks_def loopOverTracks2D_eq)
  have 2: "\<exists>w'. loopOverTracksByParallelGroup tt kern w = Inr w'"
    for kern :: "'a MOCKernel option"
    by (cases "segment_formation tt")
       (simp_all add: loopOverTracksByParallelGroup_def loopOverTracksByParallelGroup2D_eq)
  have 3: "traceSegmentsExplicit t None w = Inl NullPointerDereference"
    if "segments_of w t \<noteq> []"
    using that
    by (simp add: traceSegmentsExplicit_def traceSegmentsExplicit_from.simps [of 0]
        kernel_execute_def)
  have 4: "kernel_newTrack None t w = Inl NullPointerDereference"
    by (simp add: kernel_newTrack_def)
  from 1 [of kern] have 5: "\<forall>e. loopOverTracks tt kern w \<noteq> Inl e" by auto
  from 2 [of kern] have 6: "\<forall>e. loopOverTracksByParallelGroup tt kern w \<noteq> Inl e" by auto
  from 1 [of None] 2 [of None] 3 4 5 6 show ?thesis by blast
qed

theorem null_kernel_never_dereferenced_witness:
  "(\<exists>w'. loopOverTracks (TraverseTracks_new two_track_store) None (two_track_world ()) = Inr w')
   \<and> (\<exists>w'. loopOverTracksByParallelGroup (TraverseTracks_new two_track_store) None
             (two_track_world ()) = Inr w')
   \<and> segments_of (two_track_world ()) 0 \<noteq> []
   \<and> traceSegmentsExplicit 0 (None :: unit MOCKernel option) (two_track_world ())
       = Inl NullPointerDereference"
  using null_kernel_never_dereferenced
          [of "TraverseTracks_new two_track_store" "two_track_world ()" None 0]
  by (simp add: two_track_world_def)

text \<open>
  C6, as the claim states it, fails on the code: with a cached mode other than
  \<open>EXPLICIT_2D\<close>, a store of two tracks with a segment each and a kernel, each entry
  point returns the world it was given, having raised nothing and called nothing.
\<close>

theorem unsupported_mode_is_silent_counterexample:
  "loopOverTracks other_mode_engine (Some noop_kernel) (two_track_world ())
     = Inr (two_track_world ())
   \<and> loopOverTracksByParallelGroup other_mode_engine (Some noop_kernel) (two_track_world ())
     = Inr (two_track_world ())"
  by (simp add: loopOverTracks_def loopOverTracksByParallelGroup_def other_mode_engine_def
      TraverseTracks_new_def)

text \<open>
  C6, amended. If the cached segment formation mode is any value other than
  \<open>EXPLICIT_2D\<close>, a call of either entry point returns without an error and leaves the
  world as it was: it visits no track and calls neither the kernel nor the hook.
\<close>

theorem unsupported_mode_returns_unchanged:
  assumes "segment_formation tt \<noteq> EXPLICIT_2D"
  shows "loopOverTracks tt kern w = Inr w \<and> loopOverTracksByParallelGroup tt kern w = Inr w"
  using assms
  by (cases "segment_formation tt")
     (simp_all add: loopOverTracks_def loopOverTracksByParallelGroup_def)

theorem unsupported_mode_returns_unchanged_witness:
  "segment_formation other_mode_engine \<noteq> EXPLICIT_2D
   \<and> loopOverTracks other_mode_engine (None :: unit MOCKernel option) (two_track_world ())
       = Inr (two_track_world ())
   \<and> loopOverTracksByParallelGroup other_mode_engine (None :: unit MOCKernel option)
       (two_track_world ()) = Inr (two_track_world ())"
proof -
  have m: "segment_formation other_mode_engine \<noteq> EXPLICIT_2D"
    by (simp add: other_mode_engine_def TraverseTracks_new_def)
  show ?thesis
    using unsupported_mode_returns_unchanged [OF m] m by simp
qed

text \<open>
  C9. For an engine in the mode \<open>EXPLICIT_2D\<close> whose store reports four azimuthal angles
  and \<open>getNumX(a) + getNumY(a) = 3\<close> at the two angles in use, a call of
  \<open>loopOverTracks\<close> with the kernel that does nothing returns and adds exactly six hook
  calls to the trace.
\<close>

theorem six_hook_calls:
  assumes "segment_formation tt = EXPLICIT_2D"
    and "getNumAzim (track_generator tt) = 4"
    and "\<forall>a\<in>{0, 1}. getNumX (track_generator tt) a + getNumY (track_generator tt) a = 3"
  shows "\<exists>es w'. loopOverTracks tt (Some noop_kernel) w = Inr w' \<and> trace w' = trace w @ es
           \<and> length (hooked_tracks es) = 6"
proof -
  let ?ts = "all_tracks (track_generator tt)"
  let ?es = "events_of_tracks (Some noop_kernel) ?ts w"
  have "loopOverTracks tt (Some noop_kernel) w = Inr (fold (visit (Some noop_kernel)) ?ts w)"
    using assms(1) by (simp add: loopOverTracks_def loopOverTracks2D_eq)
  moreover have "trace (fold (visit (Some noop_kernel)) ?ts w) = trace w @ ?es"
    by (rule trace_fold_visit)
  moreover have "hooked_tracks ?es = ?ts"
    by (rule hooked_tracks_events_of_tracks)
  moreover have "length ?ts = 6"
    using assms(2,3) by (simp add: all_tracks_def angle_tracks_def cpp_div_def upto.simps)
  ultimately show ?thesis by metis
qed

theorem six_hook_calls_witness:
  "segment_formation (TraverseTracks_new six_track_store) = EXPLICIT_2D
   \<and> getNumAzim (track_generator (TraverseTracks_new six_track_store)) = 4
   \<and> getNumX (track_generator (TraverseTracks_new six_track_store)) 0
       + getNumY (track_generator (TraverseTracks_new six_track_store)) 0 = 3
   \<and> getNumX (track_generator (TraverseTracks_new six_track_store)) 1
       + getNumY (track_generator (TraverseTracks_new six_track_store)) 1 = 3
   \<and> (\<exists>es w'. loopOverTracks (TraverseTracks_new six_track_store) (Some noop_kernel)
                 (two_track_world ()) = Inr w'
         \<and> trace w' = trace (two_track_world ()) @ es
         \<and> length (hooked_tracks es) = 6)"
proof -
  have m: "segment_formation (TraverseTracks_new six_track_store) = EXPLICIT_2D"
    by (simp add: TraverseTracks_new_def six_track_store_def)
  have n: "getNumAzim (track_generator (TraverseTracks_new six_track_store)) = 4"
    by (simp add: TraverseTracks_new_def six_track_store_def)
  have x: "\<forall>a\<in>{0, 1}. getNumX (track_generator (TraverseTracks_new six_track_store)) a
                   + getNumY (track_generator (TraverseTracks_new six_track_store)) a = 3"
    by (simp add: TraverseTracks_new_def six_track_store_def)
  show ?thesis
    using six_hook_calls [OF m n x, of "two_track_world ()"] m n x by simp
qed

text \<open>
  C4. With a kernel \<open>k\<close>, \<open>traceSegmentsExplicit\<close> on a track returns and adds to the
  trace one \<open>execute\<close> call for each segment of the track, in the order of the segments
  (ascending index), each with the five fields \<open>_length\<close>, \<open>_material\<close>,
  \<open>_region_id\<close>, \<open>_cmfd_surface_fwd\<close> and \<open>_cmfd_surface_bwd\<close> of the segment; the
  kernel's state is the one these calls leave. A visit of the track by either loop
  returns and adds, in this order: one notification of the kernel with the track, which
  the loop body issues immediately before it calls \<open>traceSegmentsExplicit\<close>; the
  \<open>execute\<close> calls for the segments the track holds after the notification; one hook
  call with the track and those segments.
\<close>

theorem kernel_pass_then_hook:
  "traceSegmentsExplicit t (Some k) w =
     Inr (w\<lparr>kernel_state := fold (exec_state k) (segments_of w t) (kernel_state w),
            trace := trace w
              @ map (\<lambda>seg. Execute t (seg_length seg) (seg_material seg) (seg_region_id seg)
                             (seg_cmfd_surface_fwd seg) (seg_cmfd_surface_bwd seg))
                  (segments_of w t)\<rparr>)
   \<and> (\<exists>w'. visit_track (Some k) t w = Inr w'
         \<and> trace w' = trace w
             @ [NewTrack t]
             @ map (\<lambda>seg. Execute t (seg_length seg) (seg_material seg) (seg_region_id seg)
                            (seg_cmfd_surface_fwd seg) (seg_cmfd_surface_bwd seg))
                 (fst (newTrack k t (segments_of w t) (kernel_state w)))
             @ [OnTrack t (fst (newTrack k t (segments_of w t) (kernel_state w)))]
         \<and> segments_of w' t = fst (newTrack k t (segments_of w t) (kernel_state w)))"
proof -
  have e: "exec_event t = (\<lambda>seg. Execute t (seg_length seg) (seg_material seg)
             (seg_region_id seg) (seg_cmfd_surface_fwd seg) (seg_cmfd_surface_bwd seg))"
    by (rule ext) (simp add: exec_event_def)
  show ?thesis
    unfolding e [symmetric]
    by (simp add: traceSegmentsExplicit_Some visit_track_eq visit_def track_events_def
        kernel_events_def current_segments_def)
qed

theorem kernel_pass_then_hook_witness:
  "\<exists>w'. visit_track (Some noop_kernel) 1 (two_track_world ()) = Inr w'
         \<and> trace w' = [NewTrack 1, Execute 1 1 1 1 (- 1) (- 1), OnTrack 1 [ex_seg 1]]"
  using kernel_pass_then_hook [of 1 noop_kernel "two_track_world ()"]
  by (auto simp add: two_track_world_def noop_kernel_def ex_seg_def)

text \<open>
  C1, as the claim states it for any kernel, fails on the code. The store lists the
  tracks 0 and 1 at its one used angle and the same two tracks, in the other order, in
  its two parallel groups; each track holds one segment. The kernel clears the segments
  of the first track it is notified of. \<open>loopOverTracks\<close> then hands the kernel the
  segment of track 1 only, and \<open>loopOverTracksByParallelGroup\<close> the segment of track 0
  only.
\<close>

theorem order_dependent_kernel_counterexample:
  "mset (grouped_tracks two_track_store) = mset (all_tracks two_track_store)
   \<and> map_option kernel_visits
         (run_trace (loopOverTracks (TraverseTracks_new two_track_store)
                       (Some clearing_kernel) (two_track_world 0)))
       = Some [(1, ex_seg 1)]
   \<and> map_option kernel_visits
         (run_trace (loopOverTracksByParallelGroup (TraverseTracks_new two_track_store)
                       (Some clearing_kernel) (two_track_world 0)))
       = Some [(0, ex_seg 0)]
   \<and> mset [(1 :: nat, ex_seg 1)] \<noteq> mset [(0, ex_seg 0)]"
proof -
  have m: "segment_formation (TraverseTracks_new two_track_store) = EXPLICIT_2D"
    by (simp add: TraverseTracks_new_def two_track_store_def)
  have g: "track_generator (TraverseTracks_new two_track_store) = two_track_store"
    by (simp add: TraverseTracks_new_def)
  have a: "events_of_tracks (Some clearing_kernel) [0, 1] (two_track_world 0) =
             [NewTrack 0, OnTrack 0 [], NewTrack 1, exec_event 1 (ex_seg 1),
              OnTrack 1 [ex_seg 1]]"
    by (simp add: track_events_def kernel_events_def current_segments_def visit_def
        clearing_kernel_def two_track_world_def)
  have b: "events_of_tracks (Some clearing_kernel) [1, 0] (two_track_world 0) =
             [NewTrack 1, OnTrack 1 [], NewTrack 0, exec_event 0 (ex_seg 0),
              OnTrack 0 [ex_seg 0]]"
    by (simp add: track_events_def kernel_events_def current_segments_def visit_def
        clearing_kernel_def two_track_world_def)
  have e: "kernel_visits [exec_event t seg] = [(t, seg)]" for t seg
    by (simp add: exec_event_def)
  have "loopOverTracks (TraverseTracks_new two_track_store) (Some clearing_kernel)
          (two_track_world 0)
        = Inr (fold (visit (Some clearing_kernel)) (all_tracks two_track_store)
                 (two_track_world 0))"
    using m by (simp add: loopOverTracks_def loopOverTracks2D_eq g)
  then have "run_trace (loopOverTracks (TraverseTracks_new two_track_store)
                       (Some clearing_kernel) (two_track_world 0))
             = Some (trace (two_track_world 0 :: nat world)
                 @ events_of_tracks (Some clearing_kernel) (all_tracks two_track_store)
                     (two_track_world 0))"
    by (simp only: run_trace_def sum.case trace_fold_visit)
  then have 1: "run_trace (loopOverTracks (TraverseTracks_new two_track_store)
                       (Some clearing_kernel) (two_track_world 0))
             = Some [NewTrack 0, OnTrack 0 [], NewTrack 1, exec_event 1 (ex_seg 1),
                     OnTrack 1 [ex_seg 1]]"
    by (simp only: all_tracks_two_track_store a) (simp add: two_track_world_def)
  have "loopOverTracksByParallelGroup (TraverseTracks_new two_track_store)
          (Some clearing_kernel) (two_track_world 0)
        = Inr (fold (visit (Some clearing_kernel)) (grouped_tracks two_track_store)
                 (two_track_world 0))"
    using m
    by (simp add: loopOverTracksByParallelGroup_def loopOverTracksByParallelGroup2D_eq g)
  then have "run_trace (loopOverTracksByParallelGroup (TraverseTracks_new two_track_store)
                       (Some clearing_kernel) (two_track_world 0))
             = Some (trace (two_track_world 0 :: nat world)
                 @ events_of_tracks (Some clearing_kernel) (grouped_tracks two_track_store)
                     (two_track_world 0))"
    by (simp only: run_trace_def sum.case trace_fold_visit)
  then have 2: "run_trace (loopOverTracksByParallelGroup (TraverseTracks_new two_track_store)
                       (Some clearing_kernel) (two_track_world 0))
             = Some [NewTrack 1, OnTrack 1 [], NewTrack 0, exec_event 0 (ex_seg 0),
                     OnTrack 0 [ex_seg 0]]"
    by (simp only: grouped_tracks_two_track_store b) (simp add: two_track_world_def)
  show ?thesis
    by (simp add: 1 2 exec_event_def all_tracks_two_track_store
        grouped_tracks_two_track_store)
qed

text \<open>
  C1, amended. Let the tracks listed by the parallel groups of the store be, as a
  multiset, the tracks at the first \<open>num_azim / 2\<close> angles (every track in one group,
  once), and let the kernel be absent or regenerate statelessly. Then both entry points
  return, and the two traces hold the same multiset of (track, segment) pairs handed to
  the kernel, the same multiset of (track, segment) pairs handed to the hook, and indeed
  the same multiset of events.
\<close>

theorem traversals_visit_same_pairs:
  assumes "mset (grouped_tracks (track_generator tt)) = mset (all_tracks (track_generator tt))"
    and "stateless_regeneration kern"
  shows "\<exists>w1 w2. loopOverTracks tt kern w = Inr w1
           \<and> loopOverTracksByParallelGroup tt kern w = Inr w2
           \<and> mset (kernel_visits (trace w1)) = mset (kernel_visits (trace w2))
           \<and> mset (hook_visits (trace w1)) = mset (hook_visits (trace w2))
           \<and> mset (trace w1) = mset (trace w2)"
proof (cases "segment_formation tt")
  case EXPLICIT_2D
  let ?a = "all_tracks (track_generator tt)"
  let ?g = "grouped_tracks (track_generator tt)"
  let ?w1 = "fold (visit kern) ?a w"
  let ?w2 = "fold (visit kern) ?g w"
  have 1: "loopOverTracks tt kern w = Inr ?w1"
    using EXPLICIT_2D by (simp add: loopOverTracks_def loopOverTracks2D_eq)
  have 2: "loopOverTracksByParallelGroup tt kern w = Inr ?w2"
    using EXPLICIT_2D
    by (simp add: loopOverTracksByParallelGroup_def loopOverTracksByParallelGroup2D_eq)
  have "mset (events_of_tracks kern ?g w) = mset (events_of_tracks kern ?a w)"
    using assms(2,1) by (rule events_of_tracks_permuted)
  then have t: "mset (trace ?w1) = mset (trace ?w2)"
    by (simp add: trace_fold_visit)
  have k: "mset (kernel_visits (trace ?w1)) = mset (kernel_visits (trace ?w2))"
    using kernel_visits_append t by (rule mset_hom)
  have h: "mset (hook_visits (trace ?w1)) = mset (hook_visits (trace ?w2))"
    using hook_visits_append t by (rule mset_hom)
  from 1 2 t k h show ?thesis by blast
next
  case (OTHER_FORMATION n)
  then show ?thesis
    by (simp add: loopOverTracks_def loopOverTracksByParallelGroup_def)
qed

theorem traversals_visit_same_pairs_witness:
  "mset (grouped_tracks (track_generator (TraverseTracks_new two_track_store)))
     = mset (all_tracks (track_generator (TraverseTracks_new two_track_store)))
   \<and> stateless_regeneration (Some noop_kernel)
   \<and> (\<exists>w1 w2. loopOverTracks (TraverseTracks_new two_track_store) (Some noop_kernel)
                 (two_track_world ()) = Inr w1
           \<and> loopOverTracksByParallelGroup (TraverseTracks_new two_track_store)
                 (Some noop_kernel) (two_track_world ()) = Inr w2
           \<and> mset (kernel_visits (trace w1)) = mset (kernel_visits (trace w2))
           \<and> mset (hook_visits (trace w1)) = mset (hook_visits (trace w2))
           \<and> mset (trace w1) = mset (trace w2))"
proof -
  have s: "mset (grouped_tracks (track_generator (TraverseTracks_new two_track_store)))
     = mset (all_tracks (track_generator (TraverseTracks_new two_track_store)))"
    by (simp add: TraverseTracks_new_def all_tracks_two_track_store
        grouped_tracks_two_track_store)
  have k: "stateless_regeneration (Some noop_kernel)"
    by (simp add: stateless_regeneration_def noop_kernel_def)
  show ?thesis
    using traversals_visit_same_pairs [OF s k, of "two_track_world ()"] s k by blast
qed

text \<open>
  C2. With the mode \<open>EXPLICIT_2D\<close>, both entry points return. The tracks of the hook calls
  a traversal adds to the trace are, in order, the tracks the traversal selects: one hook
  call for each selection of a track, so exactly one for a track the store lists once.
  With a kernel, every hook call in the trace comes immediately after the notification of
  the kernel for the same track and the \<open>execute\<close> calls for exactly the segments the
  hook receives, and what follows it, if anything, is the notification for the next
  track: the hook runs after the kernel has consumed the whole current segment sequence
  of the track. The arguments of the hook calls are pinned to the tracks: the worlds
  \<open>reached 0\<close>, \<open>reached 1\<close>, ... that the loop body leads through begin with the
  world of the call and end with the world returned; the hook call number \<open>n\<close> is for the
  track selected at \<open>n\<close> and receives the segments this track holds in the world after
  the visit, which are those that \<open>newTrack\<close> left in the track at this visit or, without
  a kernel, those the track held before the visit.
\<close>

theorem hook_once_per_track_after_its_segments:
  assumes "segment_formation tt = EXPLICIT_2D"
  shows "\<exists>es1 es2 w1 w2.
           loopOverTracks tt kern w = Inr w1 \<and> trace w1 = trace w @ es1
         \<and> loopOverTracksByParallelGroup tt kern w = Inr w2 \<and> trace w2 = trace w @ es2
         \<and> hooked_tracks es1 = all_tracks (track_generator tt)
         \<and> hooked_tracks es2 = grouped_tracks (track_generator tt)
         \<and> (\<forall>es\<in>{es1, es2}. \<forall>xs t segs ys. es = xs @ OnTrack t segs # ys \<longrightarrow>
               (case kern of
                  None \<Rightarrow> segs = segments_of w t
                | Some k \<Rightarrow>
                    (\<exists>xs'. xs = xs' @ NewTrack t # map (exec_event t) segs)
                    \<and> (ys = [] \<or> (\<exists>u ys'. ys = NewTrack u # ys'))))
         \<and> (\<forall>(ts, es, w')\<in>{(all_tracks (track_generator tt), es1, w1),
                              (grouped_tracks (track_generator tt), es2, w2)}.
               reached kern ts w 0 = w
               \<and> reached kern ts w (length ts) = w'
               \<and> hook_calls es =
                   map (\<lambda>n. (ts ! n, segments_of (reached kern ts w (Suc n)) (ts ! n)))
                     [0..<length ts]
               \<and> (\<forall>n<length ts.
                     visit_track kern (ts ! n) (reached kern ts w n)
                       = Inr (reached kern ts w (Suc n))
                     \<and> segments_of (reached kern ts w (Suc n)) (ts ! n) =
                         (case kern of
                            None \<Rightarrow> segments_of (reached kern ts w n) (ts ! n)
                          | Some k \<Rightarrow>
                              fst (newTrack k (ts ! n)
                                     (segments_of (reached kern ts w n) (ts ! n))
                                     (kernel_state (reached kern ts w n))))))"
proof -
  let ?a = "all_tracks (track_generator tt)"
  let ?g = "grouped_tracks (track_generator tt)"
  let ?P = "\<lambda>es. \<forall>xs t segs ys. es = xs @ OnTrack t segs # ys \<longrightarrow>
               (case kern of
                  None \<Rightarrow> segs = segments_of w t
                | Some k \<Rightarrow>
                    (\<exists>xs'. xs = xs' @ NewTrack t # map (exec_event t) segs)
                    \<and> (ys = [] \<or> (\<exists>u ys'. ys = NewTrack u # ys')))"
  let ?Q = "\<lambda>ts es w'.
               reached kern ts w 0 = w
               \<and> reached kern ts w (length ts) = w'
               \<and> hook_calls es =
                   map (\<lambda>n. (ts ! n, segments_of (reached kern ts w (Suc n)) (ts ! n)))
                     [0..<length ts]
               \<and> (\<forall>n<length ts.
                     visit_track kern (ts ! n) (reached kern ts w n)
                       = Inr (reached kern ts w (Suc n))
                     \<and> segments_of (reached kern ts w (Suc n)) (ts ! n) =
                         (case kern of
                            None \<Rightarrow> segments_of (reached kern ts w n) (ts ! n)
                          | Some k \<Rightarrow>
                              fst (newTrack k (ts ! n)
                                     (segments_of (reached kern ts w n) (ts ! n))
                                     (kernel_state (reached kern ts w n)))))"
  have P: "?P (events_of_tracks kern ts w)" for ts
  proof (cases kern)
    case None
    then show ?thesis by (auto dest: hook_segments_None)
  next
    case (Some k)
    then show ?thesis using hook_follows_kernel_pass [of k ts w] by simp
  qed
  have Q: "?Q ts (events_of_tracks kern ts w) (fold (visit kern) ts w)" for ts
    using hook_receives_current [of kern ts w] by (simp add: reached_def)
  have 1: "loopOverTracks tt kern w = Inr (fold (visit kern) ?a w)"
    using assms by (simp add: loopOverTracks_def loopOverTracks2D_eq)
  have 2: "loopOverTracksByParallelGroup tt kern w = Inr (fold (visit kern) ?g w)"
    using assms
    by (simp add: loopOverTracksByParallelGroup_def loopOverTracksByParallelGroup2D_eq)
  have 3: "\<forall>es\<in>{events_of_tracks kern ?a w, events_of_tracks kern ?g w}. ?P es"
  proof
    fix es
    assume "es \<in> {events_of_tracks kern ?a w, events_of_tracks kern ?g w}"
    then have "es = events_of_tracks kern ?a w \<or> es = events_of_tracks kern ?g w"
      by simp
    then show "?P es"
    proof
      assume e: "es = events_of_tracks kern ?a w"
      show ?thesis unfolding e by (rule P)
    next
      assume e: "es = events_of_tracks kern ?g w"
      show ?thesis unfolding e by (rule P)
    qed
  qed
  have 4: "\<forall>(ts, es, w')\<in>{(?a, events_of_tracks kern ?a w, fold (visit kern) ?a w),
                            (?g, events_of_tracks kern ?g w, fold (visit kern) ?g w)}.
             ?Q ts es w'"
  proof
    fix x
    assume "x \<in> {(?a, events_of_tracks kern ?a w, fold (visit kern) ?a w),
                 (?g, events_of_tracks kern ?g w, fold (visit kern) ?g w)}"
    then have "x = (?a, events_of_tracks kern ?a w, fold (visit kern) ?a w)
               \<or> x = (?g, events_of_tracks kern ?g w, fold (visit kern) ?g w)"
      by simp
    then show "case x of (ts, es, w') \<Rightarrow> ?Q ts es w'"
    proof
      assume e: "x = (?a, events_of_tracks kern ?a w, fold (visit kern) ?a w)"
      show ?thesis unfolding e prod.case by (rule Q)
    next
      assume e: "x = (?g, events_of_tracks kern ?g w, fold (visit kern) ?g w)"
      show ?thesis unfolding e prod.case by (rule Q)
    qed
  qed
  have 5: "trace (fold (visit kern) ts w) = trace w @ events_of_tracks kern ts w" for ts
    by (rule trace_fold_visit)
  have 6: "hooked_tracks (events_of_tracks kern ts w) = ts" for ts
    by (rule hooked_tracks_events_of_tracks)
  show ?thesis
    apply (rule exI [of _ "events_of_tracks kern ?a w"])
    apply (rule exI [of _ "events_of_tracks kern ?g w"])
    apply (rule exI [of _ "fold (visit kern) ?a w"])
    apply (rule exI [of _ "fold (visit kern) ?g w"])
    apply (intro conjI)
           apply (rule 1)
          apply (rule 5)
         apply (rule 2)
        apply (rule 5)
       apply (rule 6)
      apply (rule 6)
     apply (rule 3)
    apply (rule 4)
    done
qed

theorem hook_once_per_track_after_its_segments_witness:
  "segment_formation (TraverseTracks_new two_track_store) = EXPLICIT_2D
   \<and> (\<exists>es1 es2 w1 w2.
           loopOverTracks (TraverseTracks_new two_track_store) (Some clearing_kernel)
             (two_track_world 0) = Inr w1
         \<and> trace w1 = trace (two_track_world 0 :: nat world) @ es1
         \<and> loopOverTracksByParallelGroup (TraverseTracks_new two_track_store)
             (Some clearing_kernel) (two_track_world 0) = Inr w2
         \<and> trace w2 = trace (two_track_world 0 :: nat world) @ es2
         \<and> hooked_tracks es1 = [0, 1]
         \<and> hooked_tracks es2 = [1, 0]
         \<and> hook_calls es1 = [(0, []), (1, [ex_seg 1])]
         \<and> hook_calls es2 = [(1, []), (0, [ex_seg 0])]
         \<and> (\<forall>es\<in>{es1, es2}. \<forall>xs t segs ys. es = xs @ OnTrack t segs # ys \<longrightarrow>
               (\<exists>xs'. xs = xs' @ NewTrack t # map (exec_event t) segs)
               \<and> (ys = [] \<or> (\<exists>u ys'. ys = NewTrack u # ys'))))"
proof -
  let ?w = "two_track_world 0 :: nat world"
  let ?K = "Some clearing_kernel"
  have m: "segment_formation (TraverseTracks_new two_track_store) = EXPLICIT_2D"
    by (simp add: TraverseTracks_new_def two_track_store_def)
  have g: "track_generator (TraverseTracks_new two_track_store) = two_track_store"
    by (simp add: TraverseTracks_new_def)
  have a: "map (\<lambda>n. ([0, 1] ! n, segments_of (reached ?K [0, 1] ?w (Suc n)) ([0, 1] ! n)))
             [0..<length [0, 1 :: nat]] = [(0, []), (1, [ex_seg 1])]"
    by (simp add: reached_def visit_def current_segments_def clearing_kernel_def
        two_track_world_def upt_rec)
  have b: "map (\<lambda>n. ([1, 0] ! n, segments_of (reached ?K [1, 0] ?w (Suc n)) ([1, 0] ! n)))
             [0..<length [1, 0 :: nat]] = [(1, []), (0, [ex_seg 0])]"
    by (simp add: reached_def visit_def current_segments_def clearing_kernel_def
        two_track_world_def upt_rec)
  from hook_once_per_track_after_its_segments [OF m, of ?K ?w]
  obtain es1 es2 w1 w2 where
    r1: "loopOverTracks (TraverseTracks_new two_track_store) ?K ?w = Inr w1"
      "trace w1 = trace ?w @ es1"
    and r2: "loopOverTracksByParallelGroup (TraverseTracks_new two_track_store) ?K ?w = Inr w2"
      "trace w2 = trace ?w @ es2"
    and h: "hooked_tracks es1 = [0, 1]" "hooked_tracks es2 = [1, 0]"
    and p: "\<forall>es\<in>{es1, es2}. \<forall>xs t segs ys. es = xs @ OnTrack t segs # ys \<longrightarrow>
               (case ?K of
                  None \<Rightarrow> segs = segments_of ?w t
                | Some k \<Rightarrow>
                    (\<exists>xs'. xs = xs' @ NewTrack t # map (exec_event t) segs)
                    \<and> (ys = [] \<or> (\<exists>u ys'. ys = NewTrack u # ys')))"
    and q: "\<forall>(ts, es, w')\<in>{([0, 1], es1, w1), ([1, 0], es2, w2)}.
               reached ?K ts ?w 0 = ?w
               \<and> reached ?K ts ?w (length ts) = w'
               \<and> hook_calls es =
                   map (\<lambda>n. (ts ! n, segments_of (reached ?K ts ?w (Suc n)) (ts ! n)))
                     [0..<length ts]
               \<and> (\<forall>n<length ts.
                     visit_track ?K (ts ! n) (reached ?K ts ?w n)
                       = Inr (reached ?K ts ?w (Suc n))
                     \<and> segments_of (reached ?K ts ?w (Suc n)) (ts ! n) =
                         (case ?K of
                            None \<Rightarrow> segments_of (reached ?K ts ?w n) (ts ! n)
                          | Some k \<Rightarrow>
                              fst (newTrack k (ts ! n)
                                     (segments_of (reached ?K ts ?w n) (ts ! n))
                                     (kernel_state (reached ?K ts ?w n)))))"
    unfolding g all_tracks_two_track_store grouped_tracks_two_track_store by blast
  from q have "hook_calls es1 =
                   map (\<lambda>n. ([0, 1] ! n, segments_of (reached ?K [0, 1] ?w (Suc n)) ([0, 1] ! n)))
                     [0..<length [0, 1 :: nat]]"
    by blast
  then have c1: "hook_calls es1 = [(0, []), (1, [ex_seg 1])]"
    by (simp only: a)
  from q have "hook_calls es2 =
                   map (\<lambda>n. ([1, 0] ! n, segments_of (reached ?K [1, 0] ?w (Suc n)) ([1, 0] ! n)))
                     [0..<length [1, 0 :: nat]]"
    by blast
  then have c2: "hook_calls es2 = [(1, []), (0, [ex_seg 0])]"
    by (simp only: b)
  from p have p': "\<forall>es\<in>{es1, es2}. \<forall>xs t segs ys. es = xs @ OnTrack t segs # ys \<longrightarrow>
               (\<exists>xs'. xs = xs' @ NewTrack t # map (exec_event t) segs)
               \<and> (ys = [] \<or> (\<exists>u ys'. ys = NewTrack u # ys'))"
    by (simp only: option.case)
  show ?thesis
    apply (rule conjI [OF m])
    apply (rule exI [of _ es1])
    apply (rule exI [of _ es2])
    apply (rule exI [of _ w1])
    apply (rule exI [of _ w2])
    apply (intro conjI)
            apply (rule r1(1))
           apply (rule r1(2))
          apply (rule r2(1))
         apply (rule r2(2))
        apply (rule h(1))
       apply (rule h(2))
      apply (rule c1)
     apply (rule c2)
    apply (rule p')
    done
qed

text \<open>
  C8, as the claim states it for any kernel, fails on the code. Track 0 holds no
  segments; the kernel's \<open>newTrack\<close> gives a track without segments one segment. The
  kernel is notified before the segments are traced and fetched, so the visit of track 0
  hands that segment to \<open>execute\<close> and to the hook.
\<close>

theorem filled_empty_track_counterexample:
  "segments_of (one_empty_world ()) 0 = []
   \<and> run_trace (visit_track (Some filling_kernel) 0 (one_empty_world ()))
       = Some [NewTrack 0, exec_event 0 (ex_seg 7), OnTrack 0 [ex_seg 7]]
   \<and> run_trace (loopOverTracks (TraverseTracks_new two_track_store) (Some filling_kernel)
                  (one_empty_world ()))
       = Some [NewTrack 0, exec_event 0 (ex_seg 7), OnTrack 0 [ex_seg 7],
               NewTrack 1, exec_event 1 (ex_seg 1), OnTrack 1 [ex_seg 1]]"
proof -
  let ?K = "Some filling_kernel"
  let ?w = "one_empty_world ()"
  have m: "segment_formation (TraverseTracks_new two_track_store) = EXPLICIT_2D"
    by (simp add: TraverseTracks_new_def two_track_store_def)
  have g: "track_generator (TraverseTracks_new two_track_store) = two_track_store"
    by (simp add: TraverseTracks_new_def)
  have 1: "segments_of ?w 0 = []"
    by (simp add: one_empty_world_def)
  have 2: "run_trace (visit_track ?K 0 ?w)
             = Some [NewTrack 0, exec_event 0 (ex_seg 7), OnTrack 0 [ex_seg 7]]"
    by (simp add: run_trace_def visit_track_eq trace_visit track_events_def kernel_events_def
        current_segments_def filling_kernel_def one_empty_world_def)
  have a: "events_of_tracks ?K [0, 1] ?w =
             [NewTrack 0, exec_event 0 (ex_seg 7), OnTrack 0 [ex_seg 7],
              NewTrack 1, exec_event 1 (ex_seg 1), OnTrack 1 [ex_seg 1]]"
    by (simp add: track_events_def kernel_events_def current_segments_def visit_def
        filling_kernel_def one_empty_world_def)
  have "loopOverTracks (TraverseTracks_new two_track_store) ?K ?w
        = Inr (fold (visit ?K) (all_tracks two_track_store) ?w)"
    using m by (simp add: loopOverTracks_def loopOverTracks2D_eq g)
  then have "run_trace (loopOverTracks (TraverseTracks_new two_track_store) ?K ?w)
             = Some (trace ?w @ events_of_tracks ?K (all_tracks two_track_store) ?w)"
    by (simp only: run_trace_def sum.case trace_fold_visit)
  then have 3: "run_trace (loopOverTracks (TraverseTracks_new two_track_store) ?K ?w)
             = Some [NewTrack 0, exec_event 0 (ex_seg 7), OnTrack 0 [ex_seg 7],
                     NewTrack 1, exec_event 1 (ex_seg 1), OnTrack 1 [ex_seg 1]]"
    by (simp only: all_tracks_two_track_store a) (simp add: one_empty_world_def)
  from 1 2 3 show ?thesis by simp
qed

text \<open>
  C8, amended. Let the mode be \<open>EXPLICIT_2D\<close>, the kernel be present, \<open>t\<close> be a track
  whose segment sequence is empty, and let the kernel's \<open>newTrack\<close> leave an empty
  segment sequence empty, whatever the state of the kernel. A visit of \<open>t\<close> returns and
  adds to the trace the notification of the kernel and the hook call with the empty
  sequence, and nothing else. If a traversal (either entry point) selects \<open>t\<close> once, the
  events of the traversal for \<open>t\<close> are exactly these two: one notification, no
  \<open>execute\<close> call, one hook call with the empty sequence.
\<close>

theorem empty_track_notified_and_hooked:
  assumes "segment_formation tt = EXPLICIT_2D"
    and "segments_of w t = []"
    and "\<forall>ks. fst (newTrack k t [] ks) = []"
  shows "(\<exists>w'. visit_track (Some k) t w = Inr w'
            \<and> trace w' = trace w @ [NewTrack t, OnTrack t []])
         \<and> (count_list (all_tracks (track_generator tt)) t = 1 \<longrightarrow>
              (\<exists>es w'. loopOverTracks tt (Some k) w = Inr w' \<and> trace w' = trace w @ es
                 \<and> filter (\<lambda>e. event_track e = t) es = [NewTrack t, OnTrack t []]))
         \<and> (count_list (grouped_tracks (track_generator tt)) t = 1 \<longrightarrow>
              (\<exists>es w'. loopOverTracksByParallelGroup tt (Some k) w = Inr w'
                 \<and> trace w' = trace w @ es
                 \<and> filter (\<lambda>e. event_track e = t) es = [NewTrack t, OnTrack t []]))"
proof -
  have e: "\<forall>ks. fst (newTrack k t (segments_of w t) ks) = []"
    using assms(2,3) by simp
  have b: "\<exists>w'. visit_track (Some k) t w = Inr w'
            \<and> trace w' = trace w @ [NewTrack t, OnTrack t []]"
    using e by (simp add: visit_track_eq trace_visit track_events_empty)
  have a: "\<exists>es w'. loopOverTracks tt (Some k) w = Inr w' \<and> trace w' = trace w @ es
                 \<and> filter (\<lambda>e. event_track e = t) es = [NewTrack t, OnTrack t []]"
    if "count_list (all_tracks (track_generator tt)) t = 1"
    using assms(1) filter_events_empty_track [OF that e]
    by (simp add: loopOverTracks_def loopOverTracks2D_eq trace_fold_visit)
  have g: "\<exists>es w'. loopOverTracksByParallelGroup tt (Some k) w = Inr w'
                 \<and> trace w' = trace w @ es
                 \<and> filter (\<lambda>e. event_track e = t) es = [NewTrack t, OnTrack t []]"
    if "count_list (grouped_tracks (track_generator tt)) t = 1"
    using assms(1) filter_events_empty_track [OF that e]
    by (simp add: loopOverTracksByParallelGroup_def loopOverTracksByParallelGroup2D_eq
        trace_fold_visit)
  from b a g show ?thesis by blast
qed

theorem empty_track_notified_and_hooked_witness:
  "segment_formation (TraverseTracks_new two_track_store) = EXPLICIT_2D
   \<and> segments_of (one_empty_world ()) 0 = []
   \<and> (\<forall>ks. fst (newTrack noop_kernel 0 [] ks) = [])
   \<and> count_list (all_tracks (track_generator (TraverseTracks_new two_track_store))) 0 = 1
   \<and> count_list (grouped_tracks (track_generator (TraverseTracks_new two_track_store))) 0 = 1
   \<and> (\<exists>es w'. loopOverTracks (TraverseTracks_new two_track_store) (Some noop_kernel)
                 (one_empty_world ()) = Inr w'
          \<and> trace w' = trace (one_empty_world ()) @ es
          \<and> filter (\<lambda>e. event_track e = 0) es = [NewTrack 0, OnTrack 0 []])
   \<and> (\<exists>es w'. loopOverTracksByParallelGroup (TraverseTracks_new two_track_store)
                 (Some noop_kernel) (one_empty_world ()) = Inr w'
          \<and> trace w' = trace (one_empty_world ()) @ es
          \<and> filter (\<lambda>e. event_track e = 0) es = [NewTrack 0, OnTrack 0 []])"
proof -
  have m: "segment_formation (TraverseTracks_new two_track_store) = EXPLICIT_2D"
    by (simp add: TraverseTracks_new_def two_track_store_def)
  have s: "segments_of (one_empty_world ()) 0 = []"
    by (simp add: one_empty_world_def)
  have e: "\<forall>ks. fst (newTrack noop_kernel 0 [] ks) = []"
    by (simp add: noop_kernel_def)
  have a: "count_list (all_tracks (track_generator (TraverseTracks_new two_track_store))) 0 = 1"
    by (simp add: TraverseTracks_new_def all_tracks_two_track_store)
  have g: "count_list (grouped_tracks (track_generator (TraverseTracks_new two_track_store))) 0
             = 1"
    by (simp add: TraverseTracks_new_def grouped_tracks_two_track_store)
  show ?thesis
    using empty_track_notified_and_hooked [OF m s e] m s e a g by blast
qed






end
